theory Spec2Isabelle
  imports Main
begin

section \<open>Values of the run-time the chain is written against\<close>

subsection \<open>Snapshots\<close>

text \<open>
  The chain stores wrapped property descriptors (the type parameter \<open>D\<close> of the source).
  A descriptor is an object, and it may be an instance of a class: the base class keeps a
  constructor for \<open>D\<close>. The chain never looks inside one; the only operation that
  depends on its shape is the object spread in \<open>update\<close>, which copies the own
  enumerable properties of its operand and nothing else. An object is therefore two finite
  maps from field names to field values:
  \<^item> \<open>own\<close>, its own enumerable properties;
  \<^item> \<open>other\<close>, the fields a read finds but a spread does not copy: non-enumerable own
    properties and what the prototype provides (inherited fields, getters of a class).
  Object identity is outside the model.
\<close>

record ('f, 'v) WrappedPropertyDescriptor =
  own :: "'f \<rightharpoonup> 'v"
  other :: "'f \<rightharpoonup> 'v"

text \<open>\<open>s.f\<close>: an own property hides what the prototype provides.\<close>

definition read_field :: "('f, 'v) WrappedPropertyDescriptor \<Rightarrow> 'f \<Rightarrow> 'v option" where
  "read_field s f = (case own s f of Some x \<Rightarrow> Some x | None \<Rightarrow> other s f)"

text \<open>
  \<open>...x\<close> inside an object literal, where \<open>x\<close> may be \<open>undefined\<close>: the own enumerable
  properties of \<open>x\<close>; spreading \<open>undefined\<close> copies nothing.
\<close>

definition spread :: "('f, 'v) WrappedPropertyDescriptor option \<Rightarrow> ('f \<rightharpoonup> 'v)" where
  "spread x = (case x of None \<Rightarrow> Map.empty | Some s \<Rightarrow> own s)"

text \<open>
  \<open>{ ... }\<close>: an object literal makes a plain object, all of whose fields are own
  enumerable properties.
\<close>

definition plain :: "('f \<rightharpoonup> 'v) \<Rightarrow> ('f, 'v) WrappedPropertyDescriptor" where
  "plain m = \<lparr>own = m, other = Map.empty\<rparr>"

subsection \<open>Numbers\<close>

text \<open>
  Indices have the type \<open>number\<close>. The model covers its integer values (fractions,
  \<open>NaN\<close> and the infinities are outside). Sums and differences of numbers are rounded to
  the nearest number, ties to the even significand: of the integers, every one up to
  \<open>2^53\<close> in magnitude is a number, and a larger one keeps its 53 leading bits
  (magnitudes beyond the largest finite number are outside the model). \<open>bitlen\<close> is
  the number of bits of a natural number.
\<close>

fun bitlen :: "nat \<Rightarrow> nat" where
  "bitlen n = (if n = 0 then 0 else Suc (bitlen (n div 2)))"

declare bitlen.simps [simp del]

definition to_number :: "int \<Rightarrow> int" where
  "to_number n =
     (if \<bar>n\<bar> \<le> 2 ^ 53 then n
      else (let ulp = 2 ^ (bitlen (nat \<bar>n\<bar>) - 53);
                q = \<bar>n\<bar> div ulp;
                r = \<bar>n\<bar> mod ulp;
                q' = (if ulp < 2 * r \<or> (2 * r = ulp \<and> odd q) then q + 1 else q)
            in sgn n * (q' * ulp)))"

subsection \<open>Arrays\<close>

text \<open>
  The private field \<open>#data\<close> is a JavaScript array. An array has
  \<^item> its index slots \<open>0 .. length - 1\<close>, each holding an element or being a hole
    (\<open>None\<close>); reading a hole gives \<open>undefined\<close>;
  \<^item> ordinary properties for the numeric keys that are not array indices. The array
    indices are the integers from 0 to \<open>2^32 - 2\<close>: a negative number, or one from
    \<open>2^32 - 1\<close> on, used as a subscript names an ordinary property, and writing it does
    not touch \<open>length\<close>.
  A read returns an option: \<open>None\<close> is \<open>undefined\<close>. A slot that exists is read and
  written as a slot: in the language the length never exceeds \<open>2^32 - 1\<close>, so every
  slot is at an array index. The engine's limit on the length itself (a \<open>push\<close> onto
  an array that already has \<open>2^32 - 1\<close> slots) is outside the model.
\<close>

record 'd Array =
  elems :: "'d option list"
  props :: "int \<rightharpoonup> 'd"

definition Array_new :: "'d Array" where
  "Array_new = \<lparr>elems = [], props = Map.empty\<rparr>"

definition Array_length :: "'d Array \<Rightarrow> int" where
  "Array_length a = int (length (elems a))"

text \<open>\<open>a[i]\<close>\<close>

definition Array_get :: "'d Array \<Rightarrow> int \<Rightarrow> 'd option" where
  "Array_get a i =
     (if 0 \<le> i \<and> i < Array_length a then elems a ! nat i
      else if 0 \<le> i \<and> i < 4294967295 then None
      else props a i)"

text \<open>
  \<open>a[i] = v\<close>: a write at an array index past the end grows the array and leaves holes.
\<close>

definition Array_put :: "'d Array \<Rightarrow> int \<Rightarrow> 'd \<Rightarrow> 'd Array" where
  "Array_put a i v =
     (if 0 \<le> i \<and> i < Array_length a then a\<lparr>elems := (elems a)[nat i := Some v]\<rparr>
      else if 0 \<le> i \<and> i < 4294967295
        then a\<lparr>elems := elems a @ replicate (nat i - length (elems a)) None @ [Some v]\<rparr>
      else a\<lparr>props := (props a)(i \<mapsto> v)\<rparr>)"

text \<open>\<open>a.push(v)\<close>\<close>

definition Array_push :: "'d Array \<Rightarrow> 'd \<Rightarrow> 'd Array" where
  "Array_push a v = a\<lparr>elems := elems a @ [Some v]\<rparr>"

text \<open>\<open>a.length = n\<close>: truncates, or extends with holes.\<close>

definition Array_setLength :: "'d Array \<Rightarrow> nat \<Rightarrow> 'd Array" where
  "Array_setLength a n =
     a\<lparr>elems := take n (elems a) @ replicate (n - length (elems a)) None\<rparr>"

text \<open>
  \<open>a.splice(start, deleteCount)\<close> with no items to insert. A negative \<open>start\<close> counts
  from the end; the start is clamped into \<open>0 .. length\<close> and the count into what is left
  after the start. The removed elements, which \<open>splice\<close> returns, are dropped by every
  caller in the source.
\<close>

definition Array_splice :: "'d Array \<Rightarrow> int \<Rightarrow> int \<Rightarrow> 'd Array" where
  "Array_splice a start deleteCount =
     (let len = Array_length a;
          actualStart = (if start < 0 then max (len + start) 0 else min start len);
          actualDeleteCount = min (max deleteCount 0) (len - actualStart)
      in a\<lparr>elems := take (nat actualStart) (elems a)
                       @ drop (nat (actualStart + actualDeleteCount)) (elems a)\<rparr>)"

text \<open>
  The slot at which \<open>splice(start, 1)\<close> starts, as a position in the list of slots: the
  clamped start above.
\<close>

definition splice_start :: "'d Array \<Rightarrow> int \<Rightarrow> nat" where
  "splice_start a i =
     (if i < 0 then nat (max (Array_length a + i) 0) else nat (min i (Array_length a)))"

section \<open>The chain\<close>

text \<open>
  Both concrete classes named \<open>DescriptorChain\<close> keep the same four private fields, and
  the methods they share have the same bodies, word for word, in the stand-alone class and
  in \<open>DescriptorChainBase\<close>. The record below holds those four fields; the base class
  adds three more. A method defined on the record scheme is the method of both classes; a
  member that only the base class has is defined on the record of the base class.
  The key is a property name; \<open>String(key)\<close> is the name itself.
\<close>

record ('o, 'f, 'v) DescriptorChain =
  currentIndex :: int
  data :: "('f, 'v) WrappedPropertyDescriptor Array"
  key :: string
  object :: 'o

record ('o, 'f, 'v) DescriptorChainBase = "('o, 'f, 'v) DescriptorChain" +
  active :: bool
  descriptor :: "'o \<Rightarrow> string \<Rightarrow> ('f, 'v) WrappedPropertyDescriptor \<Rightarrow> ('f, 'v) WrappedPropertyDescriptor"
  enabled :: bool

text \<open>The constructors: field initialisers, then the constructor body.\<close>

definition new_DescriptorChain :: "'o \<Rightarrow> string \<Rightarrow> ('o, 'f, 'v) DescriptorChain" where
  "new_DescriptorChain obj k =
     \<lparr>currentIndex = 0, data = Array_new, key = k, object = obj\<rparr>"

definition new_DescriptorChainBase ::
  "'o \<Rightarrow> string \<Rightarrow> ('o \<Rightarrow> string \<Rightarrow> ('f, 'v) WrappedPropertyDescriptor \<Rightarrow> ('f, 'v) WrappedPropertyDescriptor)
   \<Rightarrow> ('o, 'f, 'v) DescriptorChainBase" where
  "new_DescriptorChainBase obj k d =
     \<lparr>currentIndex = 0, data = Array_new, key = k, object = obj,
      active = True, descriptor = d, enabled = True\<rparr>"

subsection \<open>Getters\<close>

text \<open>
  \<open>currentIndex\<close>, \<open>key\<close> and, in the base class, \<open>object\<close>, \<open>active\<close> and
  \<open>enabled\<close> return the private field: they are the record selectors. The stand-alone
  class has no getter \<open>object\<close>, there the selector is the private field \<open>#object\<close>
  that \<open>load\<close> reads; and it answers \<open>false\<close> for both flags.
\<close>

definition active_fixed :: "('o, 'f, 'v) DescriptorChain \<Rightarrow> bool" where
  "active_fixed c = False"

definition enabled_fixed :: "('o, 'f, 'v) DescriptorChain \<Rightarrow> bool" where
  "enabled_fixed c = False"

definition current :: "('o, 'f, 'v, 'z) DescriptorChain_scheme \<Rightarrow> ('f, 'v) WrappedPropertyDescriptor option" where
  "current c = Array_get (data c) (currentIndex c)"

definition lastIndex :: "('o, 'f, 'v, 'z) DescriptorChain_scheme \<Rightarrow> int" where
  "lastIndex c = Array_length (data c) - 1"

definition size_chain :: "('o, 'f, 'v, 'z) DescriptorChain_scheme \<Rightarrow> int" where
  "size_chain c = Array_length (data c)"

text \<open>
  Only the base class has \<open>nextIndex\<close>, \<open>previousIndex\<close>, \<open>next\<close> and
  \<open>previous\<close>. The first two test \<open>typeof this.currentIndex === 'number'\<close>: the field
  is declared \<open>number\<close>, initialised to 0 and only assigned a \<open>number\<close>, so the test
  succeeds. The result type \<open>number | undefined\<close> is kept as an option, and \<open>next\<close>
  and \<open>previous\<close> keep their own test on it. The sum and the difference are those of
  numbers.
\<close>

definition nextIndex :: "('o, 'f, 'v) DescriptorChainBase \<Rightarrow> int option" where
  "nextIndex c = Some (to_number (currentIndex c + 1))"

definition previousIndex :: "('o, 'f, 'v) DescriptorChainBase \<Rightarrow> int option" where
  "previousIndex c = Some (to_number (currentIndex c - 1))"

definition next_chain :: "('o, 'f, 'v) DescriptorChainBase \<Rightarrow> ('f, 'v) WrappedPropertyDescriptor option" where
  "next_chain c = (case nextIndex c of Some i \<Rightarrow> Array_get (data c) i | None \<Rightarrow> None)"

definition previous :: "('o, 'f, 'v) DescriptorChainBase \<Rightarrow> ('f, 'v) WrappedPropertyDescriptor option" where
  "previous c = (case previousIndex c of Some i \<Rightarrow> Array_get (data c) i | None \<Rightarrow> None)"

subsection \<open>Methods\<close>

text \<open>
  A method mutates the receiver and returns \<open>this\<close>: the model takes the chain and
  returns the chain after the call.
\<close>

definition activate :: "('o, 'f, 'v) DescriptorChainBase \<Rightarrow> ('o, 'f, 'v) DescriptorChainBase" where
  "activate c = c\<lparr>active := True\<rparr>"

definition deactivate :: "('o, 'f, 'v) DescriptorChainBase \<Rightarrow> ('o, 'f, 'v) DescriptorChainBase" where
  "deactivate c = c\<lparr>active := False\<rparr>"

definition enable :: "('o, 'f, 'v) DescriptorChainBase \<Rightarrow> ('o, 'f, 'v) DescriptorChainBase" where
  "enable c = c\<lparr>enabled := True\<rparr>"

definition disable :: "('o, 'f, 'v) DescriptorChainBase \<Rightarrow> ('o, 'f, 'v) DescriptorChainBase" where
  "disable c = c\<lparr>enabled := False\<rparr>"

definition add ::
  "('f, 'v) WrappedPropertyDescriptor \<Rightarrow> ('o, 'f, 'v, 'z) DescriptorChain_scheme \<Rightarrow> ('o, 'f, 'v, 'z) DescriptorChain_scheme" where
  "add d c = c\<lparr>data := Array_push (data c) d\<rparr>"

definition clear :: "('o, 'f, 'v, 'z) DescriptorChain_scheme \<Rightarrow> ('o, 'f, 'v, 'z) DescriptorChain_scheme" where
  "clear c = c\<lparr>data := Array_setLength (data c) 0\<rparr>"

definition delete :: "int \<Rightarrow> ('o, 'f, 'v, 'z) DescriptorChain_scheme \<Rightarrow> ('o, 'f, 'v, 'z) DescriptorChain_scheme" where
  "delete index c = c\<lparr>data := Array_splice (data c) index 1\<rparr>"

definition first :: "('o, 'f, 'v, 'z) DescriptorChain_scheme \<Rightarrow> ('f, 'v) WrappedPropertyDescriptor option" where
  "first c = Array_get (data c) 0"

definition get :: "int \<Rightarrow> ('o, 'f, 'v, 'z) DescriptorChain_scheme \<Rightarrow> ('f, 'v) WrappedPropertyDescriptor option" where
  "get index c = Array_get (data c) index"

definition has :: "int \<Rightarrow> ('o, 'f, 'v, 'z) DescriptorChain_scheme \<Rightarrow> bool" where
  "has index c = (index \<ge> 0 \<and> index < Array_length (data c))"

definition last_chain :: "('o, 'f, 'v, 'z) DescriptorChain_scheme \<Rightarrow> ('f, 'v) WrappedPropertyDescriptor option" where
  "last_chain c = Array_get (data c) (lastIndex c)"

definition set_chain ::
  "int \<Rightarrow> ('f, 'v) WrappedPropertyDescriptor \<Rightarrow> ('o, 'f, 'v, 'z) DescriptorChain_scheme \<Rightarrow> ('o, 'f, 'v, 'z) DescriptorChain_scheme" where
  "set_chain index v c = c\<lparr>data := Array_put (data c) index v\<rparr>"

definition setCurrentIndex :: "int \<Rightarrow> ('o, 'f, 'v, 'z) DescriptorChain_scheme \<Rightarrow> ('o, 'f, 'v, 'z) DescriptorChain_scheme" where
  "setCurrentIndex index c = c\<lparr>currentIndex := index\<rparr>"

text \<open>
  \<open>update\<close> stores the object literal \<open>{...this.#data[index], ...value}\<close>: a plain
  object with the own enumerable properties of what was stored, overridden by those of
  \<open>value\<close>.
\<close>

definition update ::
  "int \<Rightarrow> ('f, 'v) WrappedPropertyDescriptor \<Rightarrow> ('o, 'f, 'v, 'z) DescriptorChain_scheme \<Rightarrow> ('o, 'f, 'v, 'z) DescriptorChain_scheme" where
  "update index v c =
     c\<lparr>data := Array_put (data c) index
                 (plain (spread (Array_get (data c) index) ++ spread (Some v)))\<rparr>"

text \<open>What a caller reads as \<open>chain.get(index)?.f\<close>.\<close>

definition get_field :: "int \<Rightarrow> 'f \<Rightarrow> ('o, 'f, 'v, 'z) DescriptorChain_scheme \<Rightarrow> 'v option" where
  "get_field index f c = (case get index c of None \<Rightarrow> None | Some s \<Rightarrow> read_field s f)"

subsection \<open>Iteration\<close>

text \<open>
  \<open>entries()\<close> and \<open>values()\<close> return \<open>this.#data.entries()\<close> and
  \<open>this.#data.values()\<close>: a new iterator object that holds a reference to the array, a
  position starting at 0, and the kind of item it yields. Each \<open>next()\<close> reads the array
  as it is at that moment and moves the iterator; once the position has reached the length
  the iterator is exhausted for good.

  Objects are shared by reference, so iteration is modelled on a heap: the chains by
  address, and the iterator objects by address. The array \<open>#data\<close> is created with its
  chain and the field is never assigned again, so the reference to the array that an
  iterator holds is the address of the chain whose \<open>#data\<close> it is.
\<close>

type_synonym ref = nat

datatype kind = KeyValue | Value

record ArrayIterator =
  target :: ref
  kind :: kind
  position :: nat
  exhausted :: bool

datatype 'd item = Entry int "'d option" | Single "'d option"

record ('o, 'f, 'v, 'z) heap =
  chains :: "ref \<rightharpoonup> ('o, 'f, 'v, 'z) DescriptorChain_scheme"
  iterators :: "ArrayIterator list"

text \<open>A call \<open>chain.m(...)\<close> of a mutating method on the chain at an address.\<close>

definition invoke ::
  "ref \<Rightarrow> (('o, 'f, 'v, 'z) DescriptorChain_scheme \<Rightarrow> ('o, 'f, 'v, 'z) DescriptorChain_scheme)
   \<Rightarrow> ('o, 'f, 'v, 'z) heap \<Rightarrow> ('o, 'f, 'v, 'z) heap" where
  "invoke this m h =
     (case chains h this of None \<Rightarrow> h | Some c \<Rightarrow> h\<lparr>chains := (chains h)(this \<mapsto> m c)\<rparr>)"

text \<open>The new iterator object is put at the next free address, which is returned.\<close>

definition CreateArrayIterator ::
  "ref \<Rightarrow> kind \<Rightarrow> ('o, 'f, 'v, 'z) heap \<Rightarrow> ref \<times> ('o, 'f, 'v, 'z) heap" where
  "CreateArrayIterator array k h =
     (length (iterators h),
      h\<lparr>iterators := iterators h @ [\<lparr>target = array, kind = k, position = 0, exhausted = False\<rparr>]\<rparr>)"

definition entries :: "ref \<Rightarrow> ('o, 'f, 'v, 'z) heap \<Rightarrow> ref \<times> ('o, 'f, 'v, 'z) heap" where
  "entries this h = CreateArrayIterator this KeyValue h"

definition values_chain :: "ref \<Rightarrow> ('o, 'f, 'v, 'z) heap \<Rightarrow> ref \<times> ('o, 'f, 'v, 'z) heap" where
  "values_chain this h = CreateArrayIterator this Value h"

text \<open>The item an iterator of kind \<open>k\<close> yields at position \<open>j\<close> of an array.\<close>

definition yield :: "'d Array \<Rightarrow> kind \<Rightarrow> nat \<Rightarrow> 'd item" where
  "yield a k j = (case k of KeyValue \<Rightarrow> Entry (int j) (elems a ! j) | Value \<Rightarrow> Single (elems a ! j))"

text \<open>
  \<open>it.next()\<close> on the iterator at address \<open>r\<close>: \<open>None\<close> is the result
  \<open>{done: true}\<close>. An address that holds no iterator, or an iterator whose array is
  gone, cannot come from the program; the model answers \<open>None\<close> there.
\<close>

definition ArrayIterator_next ::
  "ref \<Rightarrow> ('o, 'f, 'v, 'z) heap
   \<Rightarrow> ('f, 'v) WrappedPropertyDescriptor item option \<times> ('o, 'f, 'v, 'z) heap" where
  "ArrayIterator_next r h =
     (if length (iterators h) \<le> r then (None, h)
      else (let it = iterators h ! r in
        if exhausted it then (None, h)
        else (case chains h (target it) of
                None \<Rightarrow> (None, h)
              | Some c \<Rightarrow>
                  if length (elems (data c)) \<le> position it
                  then (None, h\<lparr>iterators := (iterators h)[r := it\<lparr>exhausted := True\<rparr>]\<rparr>)
                  else (Some (yield (data c) (kind it) (position it)),
                        h\<lparr>iterators := (iterators h)[r := it\<lparr>position := Suc (position it)\<rparr>]\<rparr>))))"

text \<open>How many items the iterator at \<open>r\<close> has left if its array stays as it is.\<close>

definition remaining :: "ref \<Rightarrow> ('o, 'f, 'v, 'z) heap \<Rightarrow> nat" where
  "remaining r h =
     (if length (iterators h) \<le> r then 0
      else (case chains h (target (iterators h ! r)) of
              None \<Rightarrow> 0
            | Some c \<Rightarrow> length (elems (data c)) - position (iterators h ! r)))"

text \<open>
  Consuming an iterator to its end while the array is not modified, as a \<open>for ... of\<close>
  loop or a spread does: the items, and the heap afterwards.
\<close>

function drain ::
  "ref \<Rightarrow> ('o, 'f, 'v, 'z) heap
   \<Rightarrow> ('f, 'v) WrappedPropertyDescriptor item list \<times> ('o, 'f, 'v, 'z) heap" where
  "drain r h =
     (case ArrayIterator_next r h of
        (None, h') \<Rightarrow> ([], h')
      | (Some x, h') \<Rightarrow> (case drain r h' of (xs, h'') \<Rightarrow> (x # xs, h'')))"
  by pat_completeness auto
termination
  by (relation "measure (\<lambda>(r, h). remaining r h)")
     (auto simp: ArrayIterator_next_def remaining_def Let_def split: if_splits option.splits)

declare drain.simps [simp del]

text \<open>\<open>[...chain.entries()]\<close> and \<open>[...chain.values()]\<close>\<close>

definition collect_entries ::
  "ref \<Rightarrow> ('o, 'f, 'v, 'z) heap
   \<Rightarrow> ('f, 'v) WrappedPropertyDescriptor item list \<times> ('o, 'f, 'v, 'z) heap" where
  "collect_entries this h = (case entries this h of (r, h') \<Rightarrow> drain r h')"

definition collect_values ::
  "ref \<Rightarrow> ('o, 'f, 'v, 'z) heap
   \<Rightarrow> ('f, 'v) WrappedPropertyDescriptor item list \<times> ('o, 'f, 'v, 'z) heap" where
  "collect_values this h = (case values_chain this h of (r, h') \<Rightarrow> drain r h')"

fun item_index :: "'d item \<Rightarrow> int option" where
  "item_index (Entry i x) = Some i"
| "item_index (Single x) = None"

fun item_value :: "'d item \<Rightarrow> 'd option" where
  "item_value (Entry i x) = x"
| "item_value (Single x) = x"

subsection \<open>The descriptor source and \<open>load\<close>\<close>

text \<open>
  \<open>Descriptor.fromProperty(object, key)\<close> belongs to another package. It reads the live
  object, so its answer may change from one call to the next: it is a parameter of the
  model, a function that takes the state of the outside world and returns that state after
  the call, together with a descriptor or nothing. A descriptor is an object, so the test
  \<open>if (descriptor)\<close> separates exactly the two answers.
\<close>

type_synonym ('o, 'f, 'v, 'w) source =
  "'o \<Rightarrow> string \<Rightarrow> 'w \<Rightarrow> ('f, 'v) WrappedPropertyDescriptor option \<times> 'w"

text \<open>\<open>new Error(message)\<close>\<close>

datatype error = Error string

text \<open>
  How a call that may throw ends: it returns \<open>this\<close>, or it throws; either way the
  receiver is left in some state, which the result carries.
\<close>

datatype ('s) completion = Return 's | Throw error 's

fun state_of :: "'s completion \<Rightarrow> 's" where
  "state_of (Return s) = s"
| "state_of (Throw e s) = s"

fun returned :: "'s completion \<Rightarrow> bool" where
  "returned (Return s) = True"
| "returned (Throw e s) = False"

definition load ::
  "('o, 'f, 'v, 'w) source \<Rightarrow> ('o, 'f, 'v, 'z) DescriptorChain_scheme \<Rightarrow> 'w
   \<Rightarrow> ('o, 'f, 'v, 'z) DescriptorChain_scheme completion \<times> 'w" where
  "load fromProperty c w =
     (case fromProperty (object c) (key c) w of
        (Some d, w') \<Rightarrow> (Return (add d c), w')
      | (None, w') \<Rightarrow> (Throw (Error (''Descriptor not found for key: '' @ key c)) c, w'))"


subsection \<open>Sequences of calls\<close>

text \<open>
  A caller populating and pruning a chain: a list of \<open>add\<close>, \<open>load\<close> and \<open>delete\<close>
  calls, run in order. A \<open>load\<close> that throws is caught by the caller, who goes on with
  the chain as the failed call left it.
\<close>

datatype ('f, 'v) call = Add "('f, 'v) WrappedPropertyDescriptor" | Load | Delete int

definition perform ::
  "('o, 'f, 'v, 'w) source \<Rightarrow> ('f, 'v) call \<Rightarrow> ('o, 'f, 'v, 'z) DescriptorChain_scheme \<Rightarrow> 'w
   \<Rightarrow> ('o, 'f, 'v, 'z) DescriptorChain_scheme completion \<times> 'w" where
  "perform fromProperty x c w =
     (case x of
        Add d \<Rightarrow> (Return (add d c), w)
      | Load \<Rightarrow> load fromProperty c w
      | Delete i \<Rightarrow> (Return (delete i c), w))"

fun run ::
  "('o, 'f, 'v, 'w) source \<Rightarrow> ('f, 'v) call list \<Rightarrow> ('o, 'f, 'v, 'z) DescriptorChain_scheme \<Rightarrow> 'w
   \<Rightarrow> ('o, 'f, 'v, 'z) DescriptorChain_scheme \<times> 'w" where
  "run fromProperty [] c w = (c, w)"
| "run fromProperty (x # xs) c w =
     (case perform fromProperty x c w of (r, w') \<Rightarrow> run fromProperty xs (state_of r) w')"

fun is_insert :: "('f, 'v) call \<Rightarrow> bool" where
  "is_insert (Add d) = True"
| "is_insert Load = True"
| "is_insert (Delete i) = False"

text \<open>The number of \<open>add\<close> and \<open>load\<close> calls of the run that returned.\<close>

fun inserted ::
  "('o, 'f, 'v, 'w) source \<Rightarrow> ('f, 'v) call list \<Rightarrow> ('o, 'f, 'v, 'z) DescriptorChain_scheme \<Rightarrow> 'w \<Rightarrow> nat" where
  "inserted fromProperty [] c w = 0"
| "inserted fromProperty (x # xs) c w =
     (case perform fromProperty x c w of (r, w') \<Rightarrow>
        (if is_insert x \<and> returned r then 1 else 0) + inserted fromProperty xs (state_of r) w')"

text \<open>The number of \<open>delete\<close> calls of the run that took a snapshot out.\<close>

fun removed ::
  "('o, 'f, 'v, 'w) source \<Rightarrow> ('f, 'v) call list \<Rightarrow> ('o, 'f, 'v, 'z) DescriptorChain_scheme \<Rightarrow> 'w \<Rightarrow> nat" where
  "removed fromProperty [] c w = 0"
| "removed fromProperty (x # xs) c w =
     (case perform fromProperty x c w of (r, w') \<Rightarrow>
        (if \<not> is_insert x \<and> size_chain (state_of r) < size_chain c then 1 else 0)
        + removed fromProperty xs (state_of r) w')"

subsection \<open>Example values\<close>

definition S0 :: "(string, int) WrappedPropertyDescriptor" where
  "S0 = plain [''value'' \<mapsto> 0, ''writable'' \<mapsto> 1]"

definition S1 :: "(string, int) WrappedPropertyDescriptor" where
  "S1 = plain [''value'' \<mapsto> 1, ''writable'' \<mapsto> 1]"

definition S2 :: "(string, int) WrappedPropertyDescriptor" where
  "S2 = plain [''value'' \<mapsto> 2, ''writable'' \<mapsto> 1]"

text \<open>A partial snapshot: it has the field \<open>writable\<close> only.\<close>

definition patch :: "(string, int) WrappedPropertyDescriptor" where
  "patch = plain [''writable'' \<mapsto> 0]"

text \<open>
  An instance of a descriptor class: \<open>writable\<close> is an own enumerable property,
  \<open>value\<close> is read through a getter of the class.
\<close>

definition instance0 :: "(string, int) WrappedPropertyDescriptor" where
  "instance0 = \<lparr>own = [''writable'' \<mapsto> 1], other = [''value'' \<mapsto> 7]\<rparr>"

text \<open>A chain of the stand-alone class and one of the base class, bound to key \<open>a\<close>.\<close>

definition chain0 :: "(unit, string, int) DescriptorChain" where
  "chain0 = new_DescriptorChain () ''a''"

definition base0 :: "(unit, string, int) DescriptorChainBase" where
  "base0 = new_DescriptorChainBase () ''a'' (\<lambda>obj k attributes. attributes)"

text \<open>
  A heap with two chains: one holding \<open>S2\<close> at address 0, one holding \<open>S0\<close> and
  \<open>S1\<close> at address 1.
\<close>

definition heap0 :: "(unit, string, int, unit) heap" where
  "heap0 = \<lparr>chains = [0 \<mapsto> add S2 chain0, 1 \<mapsto> add S1 (add S0 chain0)], iterators = []\<rparr>"

text \<open>A descriptor source that finds \<open>S0\<close>, and one that finds nothing.\<close>

definition found :: "(unit, string, int, nat) source" where
  "found obj k w = (Some S0, Suc w)"


text \<open>A descriptor source that finds \<open>S0\<close> at the first query and nothing afterwards.\<close>

definition once :: "(unit, string, int, nat) source" where
  "once obj k w = (if w = 0 then Some S0 else None, Suc w)"

section \<open>Facts about the array operations\<close>

lemmas chain_defs = add_def chain0_def base0_def new_DescriptorChain_def new_DescriptorChainBase_def
  Array_new_def Array_push_def Array_length_def size_chain_def

lemma splice_start_le: "splice_start a i \<le> length (elems a)"
  by (simp add: splice_start_def Array_length_def nat_le_iff)

lemma splice_start_int:
  "int (splice_start a i) = (if i < 0 then max (Array_length a + i) 0 else min i (Array_length a))"
  by (simp add: splice_start_def Array_length_def)

lemma Array_splice_one:
  "Array_splice a i 1 =
     a\<lparr>elems := take (splice_start a i) (elems a) @ drop (Suc (splice_start a i)) (elems a)\<rparr>"
proof -
  let ?s = "if i < 0 then max (Array_length a + i) 0 else min i (Array_length a)"
  let ?k = "splice_start a i"
  have si: "?s = int ?k" by (simp only: splice_start_int)
  have unf: "Array_splice a i 1 = a\<lparr>elems := take (nat ?s) (elems a)
       @ drop (nat (?s + min (max 1 0) (Array_length a - ?s))) (elems a)\<rparr>"
    by (simp only: Array_splice_def Let_def)
  have a: "nat ?s = ?k" by (simp only: si nat_int)
  show ?thesis
  proof (cases "?k < length (elems a)")
    case True
    then have "int ?k < Array_length a" by (simp add: Array_length_def)
    then have "min (max 1 0) (Array_length a - int ?k) = 1" by simp
    then have b: "nat (?s + min (max 1 0) (Array_length a - ?s)) = Suc ?k"
      unfolding si by simp
    show ?thesis by (simp only: unf a b)
  next
    case False
    with splice_start_le [of a i] have e: "?k = length (elems a)" by simp
    then have "min (max 1 0) (Array_length a - int ?k) = 0"
      by (simp add: Array_length_def)
    then have b: "nat (?s + min (max 1 0) (Array_length a - ?s)) = ?k"
      unfolding si by simp
    have "drop ?k (elems a) = drop (Suc ?k) (elems a)" using e by simp
    then show ?thesis by (simp only: unf a b)
  qed
qed

lemma splice_start_past_end: "Array_length a \<le> i \<Longrightarrow> splice_start a i = length (elems a)"
  by (simp add: splice_start_def Array_length_def)

lemma splice_start_negative: "i < 0 \<Longrightarrow> 0 < Array_length a \<Longrightarrow> splice_start a i < length (elems a)"
proof -
  assume "i < 0" "0 < Array_length a"
  then have "int (splice_start a i) < Array_length a"
    unfolding splice_start_int by simp
  then show ?thesis by (simp add: Array_length_def)
qed

lemma splice_start_in_range: "0 \<le> i \<Longrightarrow> i < Array_length a \<Longrightarrow> splice_start a i = nat i"
  by (simp add: splice_start_def)

lemma delete_elems:
  "elems (data (delete i c)) =
     take (splice_start (data c) i) (elems (data c)) @ drop (Suc (splice_start (data c) i)) (elems (data c))"
  by (simp add: delete_def Array_splice_one)

lemma delete_size:
  "size_chain (delete i c) =
     (if splice_start (data c) i < length (elems (data c)) then size_chain c - 1 else size_chain c)"
  using splice_start_le [of "data c" i]
  by (auto simp add: size_chain_def Array_length_def delete_elems)

lemma load_effect:
  "load src c w = (r, w') \<Longrightarrow>
     size_chain (state_of r) = size_chain c + (if returned r then 1 else 0)"
  by (auto simp add: load_def add_def Array_push_def size_chain_def Array_length_def
      split: prod.splits option.splits)

lemma perform_effect:
  assumes "perform src x c w = (r, w')"
  shows "size_chain (state_of r) =
           size_chain c + (if is_insert x \<and> returned r then 1 else 0)
                        - (if \<not> is_insert x \<and> size_chain (state_of r) < size_chain c then 1 else 0)"
proof (cases x)
  case (Add d)
  with assms show ?thesis
    by (auto simp add: perform_def add_def Array_push_def size_chain_def Array_length_def)
next
  case Load
  with assms have "load src c w = (r, w')" by (simp add: perform_def)
  from load_effect [OF this] Load show ?thesis by simp
next
  case (Delete i)
  with assms have "r = Return (delete i c)" by (auto simp add: perform_def)
  with Delete show ?thesis by (simp add: delete_size)
qed

lemma run_size:
  "size_chain (fst (run src xs c w)) = size_chain c + int (inserted src xs c w) - int (removed src xs c w)"
proof (induction xs arbitrary: c w)
  case Nil
  show ?case by simp
next
  case (Cons x xs)
  obtain r w' where p: "perform src x c w = (r, w')" by (cases "perform src x c w")
  from perform_effect [OF p] Cons.IH [of "state_of r" w'] p show ?case
    by (simp split: if_splits)
qed

lemma delete_unfold:
  "delete i c = c\<lparr>data := (data c)\<lparr>elems := take (splice_start (data c) i) (elems (data c))
       @ drop (Suc (splice_start (data c) i)) (elems (data c))\<rparr>\<rparr>"
  by (simp add: delete_def Array_splice_one)

lemma splice_start_negative_eq:
  "i < 0 \<Longrightarrow> splice_start (data c) i = nat (max (size_chain c + i) 0)"
  by (simp add: splice_start_def size_chain_def)

lemma to_number_exact: "\<bar>n\<bar> \<le> 2 ^ 53 \<Longrightarrow> to_number n = n"
  by (simp add: to_number_def)

lemma Array_get_in_range:
  "0 \<le> i \<Longrightarrow> i < Array_length a \<Longrightarrow> Array_get a i = elems a ! nat i"
  by (simp add: Array_get_def)

lemma Array_get_past_end:
  "Array_length a \<le> i \<Longrightarrow> i < 4294967295 \<Longrightarrow> Array_get a i = None"
proof -
  assume h: "Array_length a \<le> i" "i < 4294967295"
  have "0 \<le> Array_length a" by (simp add: Array_length_def)
  with h have "0 \<le> i" by linarith
  with h show ?thesis by (simp add: Array_get_def)
qed

lemma Array_get_put_same: "Array_get (Array_put a i v) i = Some v"
  by (auto simp add: Array_get_def Array_put_def Array_length_def nth_append)

lemma Array_put_put_same: "Array_put (Array_put a i v) i v = Array_put a i v"
  by (auto simp add: Array_put_def Array_length_def list_update_append)

lemma Array_put_past_end_elems:
  assumes "Array_length a \<le> i" "i < 4294967295"
  shows "elems (Array_put a i v) = elems a @ replicate (nat (i - Array_length a)) None @ [Some v]"
proof -
  have "0 \<le> Array_length a" by (simp add: Array_length_def)
  with assms have i0: "0 \<le> i" by linarith
  have "nat i - length (elems a) = nat (i - Array_length a)"
    by (simp add: Array_length_def nat_diff_distrib')
  with assms i0 show ?thesis by (simp add: Array_put_def)
qed

lemma bitlen_2_54: "bitlen 9007199254740993 = 54"
  by (simp add: bitlen.simps)

lemma to_number_2_53: "to_number 9007199254740993 = 9007199254740992"
  by (simp add: to_number_def bitlen_2_54 Let_def)

lemma spread_Some: "spread (Some s) = own s"
  by (simp add: spread_def)

lemma map_add_twice: "(m ++ n) ++ n = m ++ n"
  by (rule ext) (simp add: map_add_def split: option.splits)

lemma update_twice: "update i v (update i v c) = update i v c"
  by (simp add: update_def Array_get_put_same Array_put_put_same spread_Some plain_def map_add_twice)

lemma get_update_same:
  "get i (update i v c) = Some (plain (spread (get i c) ++ own v))"
  by (simp add: get_def update_def Array_get_put_same spread_Some)

lemma read_field_plain: "read_field (plain m) f = m f"
  by (simp add: read_field_def plain_def split: option.splits)

lemma plain_own: "other v = Map.empty \<Longrightarrow> plain (own v) = v"
  by (simp add: plain_def)

lemma Array_put_not_index:
  "Array_length a \<le> i \<Longrightarrow> 4294967295 \<le> i \<Longrightarrow> Array_put a i v = a\<lparr>props := (props a)(i \<mapsto> v)\<rparr>"
  by (simp add: Array_put_def)

lemma update_past_end_eq:
  "size_chain c \<le> i \<Longrightarrow> i < 4294967295 \<Longrightarrow> update i v c = set_chain i (plain (own v)) c"
  by (simp add: update_def set_chain_def spread_def size_chain_def Array_get_past_end)

section \<open>Facts about iterators\<close>

lemma next_yields:
  assumes "r < length (iterators h)" "iterators h ! r = it" "\<not> exhausted it"
    "chains h (target it) = Some c" "position it < length (elems (data c))"
  shows "ArrayIterator_next r h =
           (Some (yield (data c) (kind it) (position it)),
            h\<lparr>iterators := (iterators h)[r := it\<lparr>position := Suc (position it)\<rparr>]\<rparr>)"
  using assms by (simp add: ArrayIterator_next_def Let_def)

lemma next_ends:
  assumes "r < length (iterators h)" "iterators h ! r = it" "\<not> exhausted it"
    "chains h (target it) = Some c" "length (elems (data c)) \<le> position it"
  shows "ArrayIterator_next r h = (None, h\<lparr>iterators := (iterators h)[r := it\<lparr>exhausted := True\<rparr>]\<rparr>)"
  using assms by (simp add: ArrayIterator_next_def Let_def)

lemma next_exhausted:
  "r < length (iterators h) \<Longrightarrow> exhausted (iterators h ! r) \<Longrightarrow> ArrayIterator_next r h = (None, h)"
  by (simp add: ArrayIterator_next_def Let_def)

lemma drain_from:
  assumes "r < length (iterators h)" "iterators h ! r = it" "\<not> exhausted it"
    "chains h (target it) = Some c" "position it \<le> length (elems (data c))"
  shows "drain r h =
           (map (yield (data c) (kind it)) [position it ..< length (elems (data c))],
            h\<lparr>iterators := (iterators h)[r := it\<lparr>position := length (elems (data c)), exhausted := True\<rparr>]\<rparr>)"
  using assms
proof (induction "length (elems (data c)) - position it" arbitrary: h it)
  case 0
  then have e: "position it = length (elems (data c))" by simp
  then have n: "ArrayIterator_next r h = (None, h\<lparr>iterators := (iterators h)[r := it\<lparr>exhausted := True\<rparr>]\<rparr>)"
    using "0.prems" by (simp add: next_ends)
  have "it\<lparr>exhausted := True\<rparr> = it\<lparr>position := length (elems (data c)), exhausted := True\<rparr>"
    using e by simp
  with n e show ?case by (subst drain.simps) simp
next
  case (Suc k)
  let ?n = "length (elems (data c))"
  let ?it' = "it\<lparr>position := Suc (position it)\<rparr>"
  let ?h' = "h\<lparr>iterators := (iterators h)[r := ?it']\<rparr>"
  from Suc.hyps(2) have lt: "position it < ?n" by simp
  have n: "ArrayIterator_next r h = (Some (yield (data c) (kind it) (position it)), ?h')"
    using Suc.prems lt by (simp add: next_yields)
  have k: "k = ?n - position ?it'" using Suc.hyps(2) by simp
  have d: "drain r ?h' =
      (map (yield (data c) (kind ?it')) [position ?it' ..< ?n],
       ?h'\<lparr>iterators := (iterators ?h')[r := ?it'\<lparr>position := ?n, exhausted := True\<rparr>]\<rparr>)"
    using Suc.prems lt by (intro Suc.hyps(1) [OF k]) simp_all
  have "drain r h = (yield (data c) (kind it) (position it) # map (yield (data c) (kind it)) [Suc (position it) ..< ?n],
       h\<lparr>iterators := (iterators h)[r := it\<lparr>position := ?n, exhausted := True\<rparr>]\<rparr>)"
    by (subst drain.simps) (simp add: n d)
  then show ?case using lt by (simp add: upt_conv_Cons)
qed

lemma drain_exhausted:
  "r < length (iterators h) \<Longrightarrow> exhausted (iterators h ! r) \<Longrightarrow> drain r h = ([], h)"
  by (subst drain.simps) (simp add: next_exhausted)

lemma yield_KeyValue: "yield a KeyValue = (\<lambda>j. Entry (int j) (elems a ! j))"
  by (rule ext) (simp add: yield_def)

lemma yield_Value: "map (yield a Value) [0..<length (elems a)] = map Single (elems a)"
proof -
  have "map (yield a Value) [0..<length (elems a)] = map Single (map ((!) (elems a)) [0..<length (elems a)])"
    by (simp add: yield_def)
  also have "\<dots> = map Single (elems a)" by (simp only: map_nth)
  finally show ?thesis .
qed

lemma drain_created:
  assumes "chains h this = Some c" "CreateArrayIterator this k h = (r, h1)"
  shows "drain r h1 =
           (map (yield (data c) k) [0 ..< length (elems (data c))],
            h\<lparr>iterators := iterators h @ [\<lparr>target = this, kind = k,
                  position = length (elems (data c)), exhausted = True\<rparr>]\<rparr>)"
proof -
  let ?it = "\<lparr>target = this, kind = k, position = 0, exhausted = False\<rparr>"
  from assms(2) have r: "r = length (iterators h)" and h1: "h1 = h\<lparr>iterators := iterators h @ [?it]\<rparr>"
    by (simp_all add: CreateArrayIterator_def)
  have "drain r h1 =
      (map (yield (data c) (kind ?it)) [position ?it ..< length (elems (data c))],
       h1\<lparr>iterators := (iterators h1)[r := ?it\<lparr>position := length (elems (data c)), exhausted := True\<rparr>]\<rparr>)"
    using assms(1) by (intro drain_from) (simp_all add: r h1)
  then show ?thesis by (simp add: r h1)
qed

lemma collect_entries_eq:
  assumes "chains h this = Some c"
  shows "collect_entries this h =
           (map (\<lambda>j. Entry (int j) (elems (data c) ! j)) [0 ..< length (elems (data c))],
            h\<lparr>iterators := iterators h @ [\<lparr>target = this, kind = KeyValue,
                  position = length (elems (data c)), exhausted = True\<rparr>]\<rparr>)"
proof -
  obtain r h1 where e: "CreateArrayIterator this KeyValue h = (r, h1)"
    by (cases "CreateArrayIterator this KeyValue h")
  from drain_created [OF assms e] e show ?thesis
    by (simp add: collect_entries_def entries_def yield_KeyValue)
qed

lemma collect_values_eq:
  assumes "chains h this = Some c"
  shows "collect_values this h =
           (map Single (elems (data c)),
            h\<lparr>iterators := iterators h @ [\<lparr>target = this, kind = Value,
                  position = length (elems (data c)), exhausted = True\<rparr>]\<rparr>)"
proof -
  obtain r h1 where e: "CreateArrayIterator this Value h = (r, h1)"
    by (cases "CreateArrayIterator this Value h")
  from drain_created [OF assms e] e show ?thesis
    by (simp add: collect_values_def values_chain_def yield_Value)
qed

lemma entries_after_add:
  "map (\<lambda>j. Entry (int j) (elems (data (add d c)) ! j)) [0 ..< length (elems (data (add d c)))]
     = map (\<lambda>j. Entry (int j) (elems (data c) ! j)) [0 ..< length (elems (data c))]
       @ [Entry (size_chain c) (Some d)]"
proof -
  have e: "elems (data (add d c)) = elems (data c) @ [Some d]"
    by (simp add: add_def Array_push_def)
  show ?thesis
    unfolding e by (simp add: nth_append size_chain_def Array_length_def cong: map_cong)
qed

lemma interleaved:
  assumes c: "chains h this = Some c"
    and e1: "entries this h = (r1, h1)" and e2: "entries this h1 = (r2, h2)"
    and n: "ArrayIterator_next r1 h2 = (x, h3)"
  shows "r1 \<noteq> r2 \<and> iterators h3 ! r2 = iterators h2 ! r2
         \<and> fst (drain r2 h3) = map (\<lambda>j. Entry (int j) (elems (data c) ! j)) [0 ..< length (elems (data c))]
         \<and> fst (drain r1 h3) = drop 1 (map (\<lambda>j. Entry (int j) (elems (data c) ! j)) [0 ..< length (elems (data c))])"
proof -
  let ?it = "\<lparr>target = this, kind = KeyValue, position = 0, exhausted = False\<rparr>"
  let ?n = "length (elems (data c))"
  let ?L = "length (iterators h)"
  from e1 have r1: "r1 = ?L" and h1: "h1 = h\<lparr>iterators := iterators h @ [?it]\<rparr>"
    by (simp_all add: entries_def CreateArrayIterator_def)
  from e2 have r2: "r2 = Suc ?L" and h2: "h2 = h\<lparr>iterators := iterators h @ [?it, ?it]\<rparr>"
    by (simp_all add: entries_def CreateArrayIterator_def h1)
  have i1: "r1 < length (iterators h2)" "iterators h2 ! r1 = ?it" "chains h2 (target ?it) = Some c"
    by (simp_all add: r1 h2 c nth_append)
  have ne: "r1 \<noteq> r2" by (simp add: r1 r2)
  show ?thesis
  proof (cases "?n = 0")
    case True
    have "ArrayIterator_next r1 h2 = (None, h2\<lparr>iterators := (iterators h2)[r1 := ?it\<lparr>exhausted := True\<rparr>]\<rparr>)"
      using i1 True by (intro next_ends) simp_all
    with n have h3: "h3 = h2\<lparr>iterators := (iterators h2)[r1 := ?it\<lparr>exhausted := True\<rparr>]\<rparr>" by simp
    have i2: "r2 < length (iterators h3)" "iterators h3 ! r2 = ?it" "chains h3 (target ?it) = Some c"
      by (simp_all add: h3 h2 r1 r2 c nth_append)
    have d2: "fst (drain r2 h3) = map (yield (data c) (kind ?it)) [position ?it ..< ?n]"
      using i2 by (subst drain_from [where it = ?it and c = c]) simp_all
    have "exhausted (iterators h3 ! r1)" "r1 < length (iterators h3)"
      by (simp_all add: h3 h2 r1)
    then have d1: "fst (drain r1 h3) = []" by (simp add: drain_exhausted)
    from ne i2(2) d1 d2 True show ?thesis by (simp add: h2 r2 nth_append)
  next
    case False
    have "ArrayIterator_next r1 h2 = (Some (yield (data c) (kind ?it) (position ?it)),
        h2\<lparr>iterators := (iterators h2)[r1 := ?it\<lparr>position := Suc (position ?it)\<rparr>]\<rparr>)"
      using i1 False by (intro next_yields) simp_all
    with n have h3: "h3 = h2\<lparr>iterators := (iterators h2)[r1 := ?it\<lparr>position := Suc 0\<rparr>]\<rparr>" by simp
    have i2: "r2 < length (iterators h3)" "iterators h3 ! r2 = ?it" "chains h3 (target ?it) = Some c"
      by (simp_all add: h3 h2 r1 r2 c nth_append)
    have d2: "fst (drain r2 h3) = map (yield (data c) (kind ?it)) [position ?it ..< ?n]"
      using i2 by (subst drain_from [where it = ?it and c = c]) simp_all
    let ?it1 = "?it\<lparr>position := Suc 0\<rparr>"
    have i3: "r1 < length (iterators h3)" "iterators h3 ! r1 = ?it1" "chains h3 (target ?it1) = Some c"
      by (simp_all add: h3 h2 r1 c nth_append)
    from False have pos: "Suc 0 \<le> ?n" by (simp add: Suc_le_eq)
    have d1: "fst (drain r1 h3) = map (yield (data c) (kind ?it1)) [position ?it1 ..< ?n]"
      using i3 pos by (subst drain_from [where it = ?it1 and c = c]) simp_all
    have "drop 1 (map (yield (data c) KeyValue) [0 ..< ?n]) = map (yield (data c) KeyValue) [Suc 0 ..< ?n]"
      by (simp add: drop_map)
    with ne i2(2) d1 d2 show ?thesis by (simp add: h2 r2 nth_append yield_KeyValue)
  qed
qed

lemma live_iterator:
  assumes c: "chains h this = Some c" and e: "entries this h = (r, h1)"
  shows "fst (drain r (invoke this (add d) h1))
           = map (\<lambda>j. Entry (int j) (elems (data c) ! j)) [0 ..< length (elems (data c))]
             @ [Entry (size_chain c) (Some d)]"
proof -
  let ?it = "\<lparr>target = this, kind = KeyValue, position = 0, exhausted = False\<rparr>"
  let ?h = "invoke this (add d) h1"
  from e have r: "r = length (iterators h)" and h1: "h1 = h\<lparr>iterators := iterators h @ [?it]\<rparr>"
    by (simp_all add: entries_def CreateArrayIterator_def)
  have i: "r < length (iterators ?h)" "iterators ?h ! r = ?it" "chains ?h (target ?it) = Some (add d c)"
    by (simp_all add: invoke_def h1 r c)
  have "fst (drain r ?h) = map (yield (data (add d c)) (kind ?it)) [position ?it ..< length (elems (data (add d c)))]"
    using i by (subst drain_from [where it = ?it and c = "add d c"]) simp_all
  also have "\<dots> = map (\<lambda>j. Entry (int j) (elems (data (add d c)) ! j)) [0 ..< length (elems (data (add d c)))]"
    by (simp add: yield_KeyValue)
  also note entries_after_add
  finally show ?thesis .
qed

section \<open>\<open>load\<close>\<close>



section \<open>\<open>delete\<close>\<close>

text \<open>
  C2, as amended. \<open>delete(index)\<close> raises no error for any index, and it is a no-op
  exactly when the index is at or past the end (\<open>index \<ge> size\<close>) or the chain is empty.
  A negative index is not out of range for \<open>splice\<close>: it counts from the end. On a chain
  that holds a snapshot, \<open>delete(index)\<close> with \<open>index < 0\<close> removes the snapshot at
  position \<open>max(size + index, 0)\<close>, moves the later ones down, and changes nothing else.
\<close>

theorem delete_past_end_noop:
  "(delete i c = c \<longleftrightarrow> size_chain c \<le> i \<or> size_chain c = 0)
   \<and> (i < 0 \<and> 0 < size_chain c \<longrightarrow>
        delete i c = c\<lparr>data := (data c)\<lparr>elems :=
            take (nat (max (size_chain c + i) 0)) (elems (data c))
            @ drop (Suc (nat (max (size_chain c + i) 0))) (elems (data c))\<rparr>\<rparr>
        \<and> nat (max (size_chain c + i) 0) < length (elems (data c))
        \<and> size_chain (delete i c) = size_chain c - 1)"
proof (intro conjI impI iffI)
  assume e: "delete i c = c"
  show "size_chain c \<le> i \<or> size_chain c = 0"
  proof (rule ccontr)
    assume "\<not> (size_chain c \<le> i \<or> size_chain c = 0)"
    then have r: "i < size_chain c" "0 < size_chain c"
      by (simp_all add: size_chain_def Array_length_def)
    have "splice_start (data c) i < length (elems (data c))"
    proof (cases "i < 0")
      case True
      with r show ?thesis by (simp add: size_chain_def splice_start_negative)
    next
      case False
      with r show ?thesis
        by (simp add: size_chain_def splice_start_in_range Array_length_def nat_less_iff)
    qed
    then have "size_chain (delete i c) = size_chain c - 1" by (simp add: delete_size)
    with e show False by simp
  qed
next
  assume "size_chain c \<le> i \<or> size_chain c = 0"
  then have "splice_start (data c) i = length (elems (data c))"
  proof
    assume "size_chain c \<le> i"
    then show ?thesis by (simp add: size_chain_def splice_start_past_end)
  next
    assume "size_chain c = 0"
    with splice_start_le [of "data c" i] show ?thesis
      by (simp add: size_chain_def Array_length_def)
  qed
  then show "delete i c = c" by (simp add: delete_unfold)
next
  assume h: "i < 0 \<and> 0 < size_chain c"
  then have k: "splice_start (data c) i = nat (max (size_chain c + i) 0)"
    by (simp add: splice_start_negative_eq)
  from h have l: "splice_start (data c) i < length (elems (data c))"
    by (simp add: size_chain_def splice_start_negative)
  from l show "nat (max (size_chain c + i) 0) < length (elems (data c))" by (simp only: k)
  show "delete i c = c\<lparr>data := (data c)\<lparr>elems :=
            take (nat (max (size_chain c + i) 0)) (elems (data c))
            @ drop (Suc (nat (max (size_chain c + i) 0))) (elems (data c))\<rparr>\<rparr>"
    by (simp only: delete_unfold [of i c] k)
  from l show "size_chain (delete i c) = size_chain c - 1" by (simp add: delete_size)
qed

theorem delete_past_end_noop_witness:
  "size_chain (add S1 (add S0 chain0)) \<le> 2
   \<and> delete 2 (add S1 (add S0 chain0)) = add S1 (add S0 chain0)
   \<and> size_chain chain0 = 0 \<and> delete (- 1) chain0 = chain0
   \<and> - 1 < (0::int) \<and> 0 < size_chain (add S1 (add S0 chain0))
   \<and> elems (data (delete (- 1) (add S1 (add S0 chain0)))) = [Some S0]
   \<and> elems (data (delete (- 5) (add S1 (add S0 chain0)))) = [Some S1]
   \<and> size_chain (delete (- 1) (add S1 (add S0 chain0))) = 1"
proof -
  define c where "c = add S1 (add S0 chain0)"
  have s: "size_chain c = 2" and e: "elems (data c) = [Some S0, Some S1]"
    by (simp_all add: c_def chain_defs)
  have z: "size_chain chain0 = 0" by (simp add: chain_defs)
  have n1: "delete 2 c = c" using delete_past_end_noop [of 2 c] s by simp
  have n2: "delete (- 1) chain0 = chain0" using delete_past_end_noop [of "- 1" chain0] z by simp
  have p1: "- 1 < (0::int) \<and> 0 < size_chain c" and p5: "- 5 < (0::int) \<and> 0 < size_chain c"
    using s by simp_all
  note t1 = delete_past_end_noop [of "- 1" c, THEN conjunct2, THEN mp, OF p1]
  note t5 = delete_past_end_noop [of "- 5" c, THEN conjunct2, THEN mp, OF p5]
  from t1 [THEN conjunct1] have d1: "elems (data (delete (- 1) c)) = [Some S0]"
    by (simp add: s e)
  from t5 [THEN conjunct1] have d5: "elems (data (delete (- 5) c)) = [Some S1]"
    by (simp add: s e)
  from t1 [THEN conjunct2, THEN conjunct2] s have sz: "size_chain (delete (- 1) c) = 1"
    by simp
  from s z n1 n2 d1 d5 sz show ?thesis unfolding c_def by simp
qed

text \<open>
  C2 as it was stated fails at index \<open>-1\<close> on a chain holding one snapshot:
  \<open>has(-1)\<close> is false, and yet \<open>delete(-1)\<close> removes the snapshot.
\<close>

theorem delete_negative_counterexample:
  "\<not> has (- 1) (add S0 chain0) \<and> size_chain (add S0 chain0) = 1
   \<and> size_chain (delete (- 1) (add S0 chain0)) = 0
   \<and> elems (data (delete (- 1) (add S0 chain0))) \<noteq> elems (data (add S0 chain0))"
  by (simp add: has_def add_def chain0_def new_DescriptorChain_def Array_new_def Array_push_def
      Array_length_def size_chain_def delete_def Array_splice_def Let_def)

text \<open>
  C5. On a chain holding \<open>s0\<close>, \<open>s1\<close>, \<open>s2\<close> in that order, \<open>delete(1)\<close>
  removes exactly the snapshot at index 1 and moves the later one down, leaving no hole:
  the size is 2, \<open>get(0)\<close> is \<open>s0\<close> and \<open>get(1)\<close> is the former \<open>s2\<close>. Three
  \<open>add\<close> calls on a new chain of either class build such a chain.
\<close>

theorem delete_middle_shifts:
  "(elems (data c) = [Some s0, Some s1, Some s2] \<longrightarrow>
      size_chain (delete 1 c) = 2 \<and> get 0 (delete 1 c) = Some s0 \<and> get 1 (delete 1 c) = Some s2
      \<and> elems (data (delete 1 c)) = [Some s0, Some s2])
   \<and> elems (data (add s2 (add s1 (add s0 (new_DescriptorChain obj k))))) = [Some s0, Some s1, Some s2]
   \<and> elems (data (add s2 (add s1 (add s0 (new_DescriptorChainBase obj k d))))) = [Some s0, Some s1, Some s2]"
proof (intro conjI impI)
  assume h: "elems (data c) = [Some s0, Some s1, Some s2]"
  then have "splice_start (data c) 1 = 1" by (simp add: splice_start_def Array_length_def)
  with h show e: "elems (data (delete 1 c)) = [Some s0, Some s2]" by (simp add: delete_elems)
  then show "size_chain (delete 1 c) = 2" "get 0 (delete 1 c) = Some s0" "get 1 (delete 1 c) = Some s2"
    by (simp_all add: size_chain_def get_def Array_get_def Array_length_def)
qed (simp_all add: add_def new_DescriptorChain_def new_DescriptorChainBase_def Array_new_def Array_push_def)

theorem delete_middle_shifts_witness:
  "elems (data (add S2 (add S1 (add S0 chain0)))) = [Some S0, Some S1, Some S2]
   \<and> size_chain (delete 1 (add S2 (add S1 (add S0 chain0)))) = 2
   \<and> get 0 (delete 1 (add S2 (add S1 (add S0 chain0)))) = Some S0
   \<and> get 1 (delete 1 (add S2 (add S1 (add S0 chain0)))) = Some S2"
proof -
  have h: "elems (data (add S2 (add S1 (add S0 chain0)))) = [Some S0, Some S1, Some S2]"
    by (simp add: chain_defs)
  note r = delete_middle_shifts [of "add S2 (add S1 (add S0 chain0))" S0 S1 S2, THEN conjunct1, THEN mp, OF h]
  from h r show ?thesis by (simp only: simp_thms)
qed

section \<open>The cursor\<close>

text \<open>
  C3, as amended. In the base class, \<open>next\<close> is what a read of the storage at
  \<open>nextIndex\<close> gives, and \<open>nextIndex\<close> is \<open>currentIndex + 1\<close> as numbers add (exact
  up to \<open>2^53\<close>). On a chain within the language's limit on array length, \<open>next\<close> is
  the content of the slot when \<open>currentIndex + 1\<close> is in range. It is \<open>undefined\<close>
  when \<open>currentIndex + 1\<close> is at or past the end and still an array index (below
  \<open>2^32 - 1\<close>); in particular \<open>next\<close> is \<open>undefined\<close> when the cursor sits at the
  last snapshot of a chain with fewer than \<open>2^32 - 1\<close> slots.
\<close>

theorem next_reads_storage:
  "next_chain c = get (to_number (currentIndex c + 1)) c
   \<and> (\<bar>currentIndex c + 1\<bar> \<le> 2 ^ 53 \<longrightarrow> next_chain c = get (currentIndex c + 1) c)
   \<and> (has (currentIndex c + 1) c \<and> size_chain c \<le> 4294967295 \<longrightarrow>
        next_chain c = elems (data c) ! nat (currentIndex c + 1))
   \<and> (size_chain c \<le> currentIndex c + 1 \<and> currentIndex c + 1 < 4294967295 \<longrightarrow> next_chain c = None)
   \<and> (has (currentIndex c) c \<and> currentIndex c = lastIndex c \<and> size_chain c < 4294967295 \<longrightarrow>
        next_chain c = None)"
proof -
  have g: "next_chain c = get (to_number (currentIndex c + 1)) c"
    by (simp add: next_chain_def nextIndex_def get_def)
  have n: "0 \<le> size_chain c" by (simp add: size_chain_def Array_length_def)
  have a: "\<bar>currentIndex c + 1\<bar> \<le> 2 ^ 53 \<longrightarrow> next_chain c = get (currentIndex c + 1) c"
    by (simp add: g to_number_exact)
  have b: "has (currentIndex c + 1) c \<and> size_chain c \<le> 4294967295 \<longrightarrow>
        next_chain c = elems (data c) ! nat (currentIndex c + 1)"
  proof
    assume h: "has (currentIndex c + 1) c \<and> size_chain c \<le> 4294967295"
    then have r: "0 \<le> currentIndex c + 1" "currentIndex c + 1 < Array_length (data c)"
      by (simp_all add: has_def)
    with h have "\<bar>currentIndex c + 1\<bar> \<le> 2 ^ 53" by (simp add: size_chain_def)
    then have "next_chain c = get (currentIndex c + 1) c" using a by simp
    with r show "next_chain c = elems (data c) ! nat (currentIndex c + 1)"
      by (simp add: get_def Array_get_in_range)
  qed
  have d: "size_chain c \<le> currentIndex c + 1 \<and> currentIndex c + 1 < 4294967295 \<longrightarrow> next_chain c = None"
  proof
    assume h: "size_chain c \<le> currentIndex c + 1 \<and> currentIndex c + 1 < 4294967295"
    with n have "\<bar>currentIndex c + 1\<bar> \<le> 2 ^ 53" by simp
    then have "next_chain c = get (currentIndex c + 1) c" using a by simp
    with h show "next_chain c = None"
      by (simp add: get_def size_chain_def Array_get_past_end)
  qed
  have e: "has (currentIndex c) c \<and> currentIndex c = lastIndex c \<and> size_chain c < 4294967295 \<longrightarrow>
        next_chain c = None"
  proof
    assume h: "has (currentIndex c) c \<and> currentIndex c = lastIndex c \<and> size_chain c < 4294967295"
    then have "size_chain c \<le> currentIndex c + 1 \<and> currentIndex c + 1 < 4294967295"
      by (simp add: lastIndex_def size_chain_def)
    with d show "next_chain c = None" by blast
  qed
  from g a b d e show ?thesis by blast
qed

theorem next_reads_storage_witness:
  "has (currentIndex (add S1 (add S0 base0)) + 1) (add S1 (add S0 base0))
   \<and> size_chain (add S1 (add S0 base0)) \<le> 4294967295
   \<and> next_chain (add S1 (add S0 base0)) = Some S1
   \<and> has (currentIndex (add S0 base0)) (add S0 base0) \<and> currentIndex (add S0 base0) = lastIndex (add S0 base0)
   \<and> size_chain (add S0 base0) < 4294967295
   \<and> size_chain (add S0 base0) \<le> currentIndex (add S0 base0) + 1
   \<and> currentIndex (add S0 base0) + 1 < 4294967295
   \<and> \<bar>currentIndex (add S0 base0) + 1\<bar> \<le> 2 ^ 53
   \<and> next_chain (add S0 base0) = None"
proof -
  have h1: "has (currentIndex (add S1 (add S0 base0)) + 1) (add S1 (add S0 base0))
      \<and> size_chain (add S1 (add S0 base0)) \<le> 4294967295"
    by (simp add: chain_defs has_def)
  have e1: "elems (data (add S1 (add S0 base0))) ! nat (currentIndex (add S1 (add S0 base0)) + 1) = Some S1"
    by (simp add: chain_defs)
  have h2: "has (currentIndex (add S0 base0)) (add S0 base0) \<and> currentIndex (add S0 base0) = lastIndex (add S0 base0)
      \<and> size_chain (add S0 base0) < 4294967295"
    by (simp add: chain_defs has_def lastIndex_def)
  have h3: "size_chain (add S0 base0) \<le> currentIndex (add S0 base0) + 1"
    "currentIndex (add S0 base0) + 1 < 4294967295"
    "\<bar>currentIndex (add S0 base0) + 1\<bar> \<le> 2 ^ 53"
    by (simp_all add: chain_defs)
  from h1 have "next_chain (add S1 (add S0 base0))
      = elems (data (add S1 (add S0 base0))) ! nat (currentIndex (add S1 (add S0 base0)) + 1)"
    using next_reads_storage [of "add S1 (add S0 base0)"] by blast
  with e1 have n1: "next_chain (add S1 (add S0 base0)) = Some S1" by (simp only:)
  from h2 have n2: "next_chain (add S0 base0) = None"
    using next_reads_storage [of "add S0 base0"] by blast
  from h1 h2 h3 n1 n2 show ?thesis by blast
qed

text \<open>
  C3 as it was stated fails on a chain holding one snapshot with the cursor on it:
  the cursor is present and sits at the last snapshot, and \<open>next\<close> is \<open>undefined\<close>.
\<close>

theorem next_at_last_counterexample:
  "currentIndex (add S0 base0) = lastIndex (add S0 base0) \<and> has (currentIndex (add S0 base0)) (add S0 base0)
   \<and> current (add S0 base0) = Some S0 \<and> next_chain (add S0 base0) = None"
  by (simp add: chain_defs lastIndex_def has_def current_def next_chain_def nextIndex_def Array_get_def
      to_number_def)

text \<open>
  Where the bounds in C3 come from. A key from \<open>2^32 - 1\<close> on is an ordinary property:
  \<open>set(4294967295, S1)\<close> leaves the size at 1, and with the cursor at 4294967294
  \<open>next\<close> reads that property. At \<open>2^53\<close> adding 1 gives the same number back.
\<close>

lemma nextIndex_rounds:
  "nextIndex (setCurrentIndex 9007199254740992 base0) = Some 9007199254740992"
  by (simp add: nextIndex_def setCurrentIndex_def to_number_2_53)

lemma next_past_the_array_indices:
  "size_chain (set_chain 4294967295 S1 (add S0 base0)) = 1
   \<and> get 4294967295 (set_chain 4294967295 S1 (add S0 base0)) = Some S1
   \<and> next_chain (setCurrentIndex 4294967294 (set_chain 4294967295 S1 (add S0 base0))) = Some S1"
  by (simp add: chain_defs set_chain_def setCurrentIndex_def Array_put_def Array_get_def get_def
      next_chain_def nextIndex_def to_number_def)

text \<open>
  C8. \<open>setCurrentIndex(index)\<close> stores any integer as the cursor, without a bounds
  check and without touching anything else; it has no failing branch. On a chain of size 2,
  after \<open>setCurrentIndex(5)\<close>, reading \<open>current\<close> gives \<open>undefined\<close> and
  \<open>has(5)\<close> is false.
\<close>

theorem setCurrentIndex_unchecked:
  "setCurrentIndex i c = c\<lparr>currentIndex := i\<rparr> \<and> currentIndex (setCurrentIndex i c) = i
   \<and> data (setCurrentIndex i c) = data c
   \<and> (size_chain c = 2 \<longrightarrow> current (setCurrentIndex 5 c) = None \<and> \<not> has 5 (setCurrentIndex 5 c))"
  by (simp add: setCurrentIndex_def current_def has_def size_chain_def Array_get_def)

theorem setCurrentIndex_unchecked_witness:
  "size_chain (add S1 (add S0 base0)) = 2
   \<and> current (setCurrentIndex 5 (add S1 (add S0 base0))) = None
   \<and> \<not> has 5 (setCurrentIndex 5 (add S1 (add S0 base0)))
   \<and> currentIndex (setCurrentIndex (- 7) (add S1 (add S0 base0))) = - 7"
proof -
  have s: "size_chain (add S1 (add S0 base0)) = 2" by (simp add: chain_defs)
  show ?thesis
    using s setCurrentIndex_unchecked [of "- 7" "add S1 (add S0 base0)"] by simp
qed

section \<open>\<open>update\<close>\<close>

text \<open>
  C4, as amended. For an index in range, \<open>update(i, value)\<close> stores a plain object. In
  it every own enumerable property of \<open>value\<close> has \<open>value\<close>'s content, and every
  other field has the content of the own enumerable property of that name of the snapshot
  stored at \<open>i\<close> before, or is absent when there is no such property (a hole has none).
  So when both snapshots are plain records, the fields present on \<open>value\<close> take its
  content and the fields absent from it keep the prior content; a field that the prior
  snapshot has only through its class, or as a non-enumerable property, is not kept. A
  second \<open>update(i, value)\<close> with the same \<open>value\<close> stores the same snapshot again and
  leaves the whole chain as the first call left it.
\<close>

theorem update_merges_idempotent:
  assumes "has i c"
  shows "\<exists>s. get i (update i v c) = Some s
           \<and> other s = Map.empty
           \<and> (\<forall>f. f \<in> dom (own v) \<longrightarrow> read_field s f = own v f)
           \<and> (\<forall>f p. get i c = Some p \<and> f \<notin> dom (own v) \<longrightarrow> read_field s f = own p f)
           \<and> (\<forall>f. get i c = None \<and> f \<notin> dom (own v) \<longrightarrow> read_field s f = None)
           \<and> (\<forall>f p. get i c = Some p \<and> other p = Map.empty \<and> other v = Map.empty
                  \<longrightarrow> read_field s f = (if read_field v f = None then read_field p f else read_field v f))
           \<and> get i (update i v (update i v c)) = Some s
           \<and> update i v (update i v c) = update i v c
           \<and> size_chain (update i v c) = size_chain c"
proof -
  let ?s = "plain (spread (get i c) ++ own v)"
  from assms have r: "0 \<le> i" "i < Array_length (data c)" by (simp_all add: has_def)
  have g: "get i (update i v c) = Some ?s" by (rule get_update_same)
  have o: "other ?s = Map.empty" by (simp add: plain_def)
  have sz: "size_chain (update i v c) = size_chain c"
    using r by (simp add: size_chain_def update_def Array_put_def Array_length_def)
  have f1: "\<forall>f. f \<in> dom (own v) \<longrightarrow> read_field ?s f = own v f"
    by (auto simp: read_field_plain map_add_dom_app_simps)
  have f2: "\<forall>f p. get i c = Some p \<and> f \<notin> dom (own v) \<longrightarrow> read_field ?s f = own p f"
    by (auto simp: read_field_plain spread_def map_add_dom_app_simps)
  have f3: "\<forall>f. get i c = None \<and> f \<notin> dom (own v) \<longrightarrow> read_field ?s f = None"
    by (auto simp: read_field_plain spread_def map_add_dom_app_simps)
  have f4: "\<forall>f p. get i c = Some p \<and> other p = Map.empty \<and> other v = Map.empty
                  \<longrightarrow> read_field ?s f = (if read_field v f = None then read_field p f else read_field v f)"
  proof (intro allI impI)
    fix f p
    assume a: "get i c = Some p \<and> other p = Map.empty \<and> other v = Map.empty"
    then have x: "read_field ?s f = (own p ++ own v) f"
      by (simp add: read_field_plain spread_def)
    from a have y: "read_field v f = own v f" "read_field p f = own p f"
      by (simp_all add: read_field_def split: option.splits)
    show "read_field ?s f = (if read_field v f = None then read_field p f else read_field v f)"
      unfolding x y by (simp add: map_add_def split: option.splits)
  qed
  have g2: "get i (update i v (update i v c)) = Some ?s" by (simp only: update_twice g)
  from g o f1 f2 f3 f4 g2 sz update_twice [of i v c] show ?thesis
    by (intro exI [of _ ?s]) blast
qed

theorem update_merges_idempotent_witness:
  "has 0 (add S0 chain0) \<and> get 0 (add S0 chain0) = Some S0
   \<and> ''writable'' \<in> dom (own patch) \<and> ''value'' \<notin> dom (own patch)
   \<and> (\<exists>s. get 0 (update 0 patch (add S0 chain0)) = Some s
          \<and> read_field s ''writable'' = Some 0 \<and> read_field s ''value'' = Some 0
          \<and> get 0 (update 0 patch (update 0 patch (add S0 chain0))) = Some s)"
proof -
  have h: "has 0 (add S0 chain0)" by (simp add: chain_defs has_def)
  have g: "get 0 (add S0 chain0) = Some S0" by (simp add: chain_defs get_def Array_get_def)
  have d: "''writable'' \<in> dom (own patch)" "''value'' \<notin> dom (own patch)"
    by (simp_all add: patch_def plain_def)
  from update_merges_idempotent [OF h, of patch] obtain s where
    s: "get 0 (update 0 patch (add S0 chain0)) = Some s"
       "\<forall>f. f \<in> dom (own patch) \<longrightarrow> read_field s f = own patch f"
       "\<forall>f p. get 0 (add S0 chain0) = Some p \<and> f \<notin> dom (own patch) \<longrightarrow> read_field s f = own p f"
       "get 0 (update 0 patch (update 0 patch (add S0 chain0))) = Some s"
    by blast
  from s(2) d(1) have "read_field s ''writable'' = own patch ''writable''" by blast
  then have w: "read_field s ''writable'' = Some 0" by (simp add: patch_def plain_def)
  from s(3) g d(2) have "read_field s ''value'' = own S0 ''value''" by blast
  then have v: "read_field s ''value'' = Some 0" by (simp add: S0_def plain_def)
  from h g d s(1) s(4) w v show ?thesis by blast
qed

text \<open>
  C4 as it was stated fails when the snapshot stored is an instance of a class: its field
  \<open>value\<close>, read through the class, is absent from the partial value and yet it is not
  kept by \<open>update\<close>.
\<close>

theorem update_drops_class_fields_counterexample:
  "has 0 (add instance0 chain0)
   \<and> get_field 0 ''value'' (add instance0 chain0) = Some 7
   \<and> read_field patch ''value'' = None
   \<and> get_field 0 ''value'' (update 0 patch (add instance0 chain0)) = None
   \<and> get_field 0 ''writable'' (update 0 patch (add instance0 chain0)) = Some 0"
  by (simp add: chain_defs has_def get_field_def get_def update_def Array_get_def Array_put_def
      instance0_def patch_def plain_def spread_def read_field_def)

text \<open>
  C9, as amended. For an index at or past the end that is an array index
  (\<open>size \<le> i \<le> 2^32 - 2\<close>), \<open>update(i, value)\<close> is not a no-op. Nothing is stored
  at \<open>i\<close>, so the merge is a plain copy of \<open>value\<close>'s own enumerable properties; it is
  written at \<open>i\<close>, the storage grows to length \<open>i + 1\<close>, the indices between the old
  end and \<open>i\<close> are holes that read as \<open>undefined\<close>, and the snapshots already stored
  stay where they are: the same chain as after \<open>set\<close> of that copy at \<open>i\<close>, which is
  \<open>set(i, value)\<close> when \<open>value\<close> is a plain record. From \<open>2^32 - 1\<close> on the index
  names an ordinary property: the merge is stored there, and the size and the snapshot
  sequence do not change.
\<close>

theorem update_past_end_grows:
  "(size_chain c \<le> i \<and> i < 4294967295 \<longrightarrow>
      update i v c = set_chain i (plain (own v)) c
      \<and> (other v = Map.empty \<longrightarrow> update i v c = set_chain i v c)
      \<and> elems (data (update i v c))
          = elems (data c) @ replicate (nat (i - size_chain c)) None @ [Some (plain (own v))]
      \<and> size_chain (update i v c) = i + 1
      \<and> get i (update i v c) = Some (plain (own v))
      \<and> (\<forall>j. size_chain c \<le> j \<and> j < i \<longrightarrow> get j (update i v c) = None \<and> has j (update i v c))
      \<and> (\<forall>j. has j c \<longrightarrow> get j (update i v c) = get j c)
      \<and> update i v c \<noteq> c)
   \<and> (size_chain c \<le> i \<and> 4294967295 \<le> i \<longrightarrow>
      elems (data (update i v c)) = elems (data c)
      \<and> size_chain (update i v c) = size_chain c
      \<and> \<not> has i (update i v c)
      \<and> get i (update i v c) = Some (plain (spread (get i c) ++ own v)))"
proof (intro conjI impI)
  assume h: "size_chain c \<le> i \<and> i < 4294967295"
  have n: "0 \<le> size_chain c" by (simp add: size_chain_def Array_length_def)
  with h have i0: "0 \<le> i" by linarith
  from h show eq: "update i v c = set_chain i (plain (own v)) c"
    by (simp add: update_past_end_eq)
  have el: "elems (data (set_chain i (plain (own v)) c))
      = elems (data c) @ replicate (nat (i - size_chain c)) None @ [Some (plain (own v))]"
    using h by (simp add: set_chain_def size_chain_def Array_put_past_end_elems)
  then show "elems (data (update i v c))
      = elems (data c) @ replicate (nat (i - size_chain c)) None @ [Some (plain (own v))]"
    by (simp only: eq)
  have sz: "size_chain (set_chain i (plain (own v)) c) = i + 1"
    using h n by (simp add: size_chain_def [of "set_chain i (plain (own v)) c"] Array_length_def el)
      (simp add: size_chain_def Array_length_def)
  then show "size_chain (update i v c) = i + 1" by (simp only: eq)
  show "get i (update i v c) = Some (plain (own v))"
    by (simp add: eq get_def set_chain_def Array_get_put_same)
  show "\<forall>j. size_chain c \<le> j \<and> j < i \<longrightarrow> get j (update i v c) = None \<and> has j (update i v c)"
  proof (intro allI impI)
    fix j assume j: "size_chain c \<le> j \<and> j < i"
    with n have j0: "0 \<le> j" by linarith
    from j sz have jr: "j < Array_length (data (set_chain i (plain (own v)) c))"
      by (simp add: size_chain_def)
    with j0 have "get j (set_chain i (plain (own v)) c)
        = (elems (data c) @ replicate (nat (i - size_chain c)) None @ [Some (plain (own v))]) ! nat j"
      by (simp add: get_def Array_get_in_range el)
    also have "\<dots> = None"
      using j j0 by (auto simp add: nth_append size_chain_def Array_length_def)
    finally have "get j (set_chain i (plain (own v)) c) = None" .
    moreover from j0 jr have "has j (set_chain i (plain (own v)) c)" by (simp add: has_def)
    ultimately show "get j (update i v c) = None \<and> has j (update i v c)" by (simp only: eq simp_thms)
  qed
  show "\<forall>j. has j c \<longrightarrow> get j (update i v c) = get j c"
  proof (intro allI impI)
    fix j assume "has j c"
    then have jr: "0 \<le> j" "j < size_chain c" by (simp_all add: has_def size_chain_def)
    with h sz have "j < Array_length (data (set_chain i (plain (own v)) c))"
      by (simp add: size_chain_def)
    with jr have "get j (set_chain i (plain (own v)) c)
        = (elems (data c) @ replicate (nat (i - size_chain c)) None @ [Some (plain (own v))]) ! nat j"
      by (simp add: get_def Array_get_in_range el)
    also have "\<dots> = get j c"
      using jr by (simp add: nth_append size_chain_def Array_length_def get_def Array_get_def nat_less_iff)
    finally show "get j (update i v c) = get j c" by (simp only: eq)
  qed
  show "update i v c \<noteq> c"
  proof
    assume "update i v c = c"
    then have "size_chain (set_chain i (plain (own v)) c) = size_chain c" by (simp add: eq)
    with sz h show False by simp
  qed
next
  assume "size_chain c \<le> i \<and> i < 4294967295" and "other v = Map.empty"
  then show "update i v c = set_chain i v c"
    by (simp add: update_past_end_eq plain_own)
next
  assume h: "size_chain c \<le> i \<and> 4294967295 \<le> i"
  then show e: "elems (data (update i v c)) = elems (data c)"
    by (simp add: update_def size_chain_def Array_put_not_index)
  then show s: "size_chain (update i v c) = size_chain c"
    by (simp add: size_chain_def Array_length_def)
  from s h show "\<not> has i (update i v c)" by (simp add: has_def size_chain_def)
  show "get i (update i v c) = Some (plain (spread (get i c) ++ own v))"
    by (rule get_update_same)
qed

theorem update_past_end_grows_witness:
  "size_chain (add S0 chain0) \<le> 3 \<and> (3::int) < 4294967295
   \<and> size_chain (update 3 S1 (add S0 chain0)) = 4
   \<and> get 3 (update 3 S1 (add S0 chain0)) = Some S1
   \<and> get 1 (update 3 S1 (add S0 chain0)) = None
   \<and> get 2 (update 3 S1 (add S0 chain0)) = None
   \<and> has 0 (add S0 chain0)
   \<and> get 0 (update 3 S1 (add S0 chain0)) = Some S0
   \<and> update 3 S1 (add S0 chain0) = set_chain 3 S1 (add S0 chain0)
   \<and> size_chain (add S0 chain0) \<le> 4294967295 \<and> (4294967295::int) \<le> 4294967295
   \<and> size_chain (update 4294967295 S1 (add S0 chain0)) = 1
   \<and> \<not> has 4294967295 (update 4294967295 S1 (add S0 chain0))"
proof -
  define c where "c = add S0 chain0"
  have s: "size_chain c = 1" by (simp add: c_def chain_defs)
  then have h: "size_chain c \<le> 3 \<and> (3::int) < 4294967295" by simp
  from s have h': "size_chain c \<le> 4294967295 \<and> (4294967295::int) \<le> 4294967295" by simp
  have h0: "has 0 c" by (simp add: c_def chain_defs has_def)
  have g: "get 0 c = Some S0" by (simp add: c_def chain_defs get_def Array_get_def)
  have pl: "other S1 = Map.empty" "plain (own S1) = S1" by (simp_all add: S1_def plain_def)
  note u = update_past_end_grows [of c 3 S1, THEN conjunct1, THEN mp, OF h]
  note w = update_past_end_grows [of c 4294967295 S1, THEN conjunct2, THEN mp, OF h']
  from u have sz: "size_chain (update 3 S1 c) = 3 + 1" by blast
  from u have g3: "get 3 (update 3 S1 c) = Some (plain (own S1))" by blast
  from u have holes: "\<forall>j. size_chain c \<le> j \<and> j < 3 \<longrightarrow> get j (update 3 S1 c) = None \<and> has j (update 3 S1 c)"
    by blast
  from u have keep: "\<forall>j. has j c \<longrightarrow> get j (update 3 S1 c) = get j c" by blast
  from u pl have eq: "update 3 S1 c = set_chain 3 S1 c" by blast
  from holes s have g1: "get 1 (update 3 S1 c) = None" by simp
  from holes s have g2: "get 2 (update 3 S1 c) = None" by simp
  from keep h0 g have g0: "get 0 (update 3 S1 c) = Some S0" by simp
  from sz have sz4: "size_chain (update 3 S1 c) = 4" by simp
  from g3 pl have g3': "get 3 (update 3 S1 c) = Some S1" by simp
  from w s have w1: "size_chain (update 4294967295 S1 c) = 1" by simp
  from w have w2: "\<not> has 4294967295 (update 4294967295 S1 c)" by blast
  from h h' sz4 g3' g1 g2 h0 g0 eq w1 w2 show ?thesis unfolding c_def by (simp only: simp_thms)
qed

text \<open>
  C9 as it was stated fails at index \<open>2^32\<close> on a chain holding one snapshot: the size
  stays 1 and no hole appears.
\<close>

theorem update_past_array_indices_counterexample:
  "size_chain (add S0 chain0) \<le> 4294967296
   \<and> size_chain (update 4294967296 S1 (add S0 chain0)) = 1
   \<and> elems (data (update 4294967296 S1 (add S0 chain0))) = [Some S0]
   \<and> \<not> has 4294967296 (update 4294967296 S1 (add S0 chain0))
   \<and> get 1 (update 4294967296 S1 (add S0 chain0)) = None"
  by (simp add: chain_defs has_def get_def update_def Array_get_def Array_put_def)

section \<open>Size\<close>

text \<open>
  C6. After any sequence of \<open>add\<close>, \<open>load\<close> and \<open>delete\<close> calls on a newly
  constructed chain of either class, the size is the number of \<open>add\<close> and \<open>load\<close>
  calls that returned minus the number of \<open>delete\<close> calls that removed a snapshot; from
  any chain, the size changes by that difference. The size is always \<open>lastIndex + 1\<close>.
\<close>

theorem size_counts_calls:
  "size_chain (fst (run src xs (new_DescriptorChain obj k) w))
     = int (inserted src xs (new_DescriptorChain obj k) w) - int (removed src xs (new_DescriptorChain obj k) w)
   \<and> size_chain (fst (run src xs (new_DescriptorChainBase obj k d) w))
     = int (inserted src xs (new_DescriptorChainBase obj k d) w) - int (removed src xs (new_DescriptorChainBase obj k d) w)
   \<and> size_chain (fst (run src xs c w)) = size_chain c + int (inserted src xs c w) - int (removed src xs c w)
   \<and> size_chain (fst (run src xs c w)) = lastIndex (fst (run src xs c w)) + 1"
proof -
  have a: "size_chain (new_DescriptorChain obj k) = 0"
    by (simp add: size_chain_def new_DescriptorChain_def Array_new_def Array_length_def)
  have b: "size_chain (new_DescriptorChainBase obj k d) = 0"
    by (simp add: size_chain_def new_DescriptorChainBase_def Array_new_def Array_length_def)
  have l: "size_chain (fst (run src xs c w)) = lastIndex (fst (run src xs c w)) + 1"
    by (simp add: size_chain_def lastIndex_def)
  have c1: "size_chain (fst (run src xs (new_DescriptorChain obj k) w))
     = int (inserted src xs (new_DescriptorChain obj k) w) - int (removed src xs (new_DescriptorChain obj k) w)"
    by (simp add: run_size a)
  have c2: "size_chain (fst (run src xs (new_DescriptorChainBase obj k d) w))
     = int (inserted src xs (new_DescriptorChainBase obj k d) w) - int (removed src xs (new_DescriptorChainBase obj k d) w)"
    by (simp add: run_size b)
  from c1 c2 run_size [of src xs c w] l show ?thesis by blast
qed

text \<open>
  An instance: \<open>load\<close> finds a snapshot, a second \<open>load\<close> finds none and throws,
  \<open>add\<close> appends, \<open>delete(5)\<close> removes nothing and \<open>delete(-1)\<close> removes the
  last snapshot. Two insertions returned, one deletion removed: the size is 1.
\<close>

theorem size_counts_calls_witness:
  "inserted once [Load, Load, Add S1, Delete 5, Delete (- 1)] chain0 0 = 2
   \<and> removed once [Load, Load, Add S1, Delete 5, Delete (- 1)] chain0 0 = 1
   \<and> size_chain (fst (run once [Load, Load, Add S1, Delete 5, Delete (- 1)] chain0 0)) = 1
   \<and> lastIndex (fst (run once [Load, Load, Add S1, Delete 5, Delete (- 1)] chain0 0)) = 0"
proof -
  define final where "final = fst (run once [Load, Load, Add S1, Delete 5, Delete (- 1)] chain0 0)"
  have i: "inserted once [Load, Load, Add S1, Delete 5, Delete (- 1)] chain0 0 = 2"
    by (simp add: perform_def load_def once_def)
  have r: "removed once [Load, Load, Add S1, Delete 5, Delete (- 1)] chain0 0 = 1"
    by (simp add: perform_def load_def once_def chain_defs delete_def Array_splice_def Let_def)
  have z: "size_chain chain0 = 0" by (simp add: chain_defs)
  note t = size_counts_calls [where src = once and xs = "[Load, Load, Add S1, Delete 5, Delete (- 1)]"
      and w = 0 and c = chain0, folded final_def]
  from t have "size_chain final = size_chain chain0 + int 2 - int 1"
    unfolding i r by blast
  with z have s: "size_chain final = 1" by simp
  from t have "size_chain final = lastIndex final + 1" by blast
  with s have l: "lastIndex final = 0" by simp
  from i r s l show ?thesis unfolding final_def by blast
qed

section \<open>Iteration\<close>

text \<open>
  C7. For the chain at an address, spreading \<open>entries()\<close> yields the pairs of index and
  slot content in ascending index order, and spreading \<open>values()\<close> the slot contents in
  the same order, so the second components of the entries are the values. Both sequences
  end: each has as many items as the chain has slots, and iterating leaves every chain as
  it was. Invoking either method again, after an earlier iterator has been consumed, gives
  the whole sequence again. Two invocations give two iterator objects: advancing the first
  leaves the second at its start, the second then yields the whole sequence and the first
  the rest of it. An iterator reads the storage as it is when it is advanced: after an
  \<open>add\<close> the new snapshot is the last item, for an iterator made before the \<open>add\<close>
  as for one made after it.
\<close>

theorem entries_match_values:
  assumes "chains h this = Some c"
  shows "fst (collect_entries this h)
           = map (\<lambda>j. Entry (int j) (elems (data c) ! j)) [0 ..< length (elems (data c))]
   \<and> fst (collect_values this h) = map Single (elems (data c))
   \<and> map item_index (fst (collect_entries this h)) = map (\<lambda>j. Some (int j)) [0 ..< length (elems (data c))]
   \<and> map item_value (fst (collect_entries this h)) = map item_value (fst (collect_values this h))
   \<and> int (length (fst (collect_entries this h))) = size_chain c
   \<and> int (length (fst (collect_values this h))) = size_chain c
   \<and> chains (snd (collect_entries this h)) = chains h
   \<and> chains (snd (collect_values this h)) = chains h
   \<and> fst (collect_entries this (snd (collect_entries this h))) = fst (collect_entries this h)
   \<and> fst (collect_values this (snd (collect_entries this h))) = fst (collect_values this h)
   \<and> (case entries this h of (r1, h1) \<Rightarrow>
        case entries this h1 of (r2, h2) \<Rightarrow>
        case ArrayIterator_next r1 h2 of (x, h3) \<Rightarrow>
          r1 \<noteq> r2 \<and> iterators h3 ! r2 = iterators h2 ! r2
          \<and> fst (drain r2 h3) = fst (collect_entries this h)
          \<and> fst (drain r1 h3) = drop 1 (fst (collect_entries this h)))
   \<and> (case entries this h of (r, h1) \<Rightarrow>
        fst (drain r (invoke this (add d) h1))
          = fst (collect_entries this h) @ [Entry (size_chain c) (Some d)])
   \<and> fst (collect_entries this (invoke this (add d) h))
        = fst (collect_entries this h) @ [Entry (size_chain c) (Some d)]"
proof -
  let ?E = "map (\<lambda>j. Entry (int j) (elems (data c) ! j)) [0 ..< length (elems (data c))]"
  note ce = collect_entries_eq [OF assms]
  note cv = collect_values_eq [OF assms]
  have e: "fst (collect_entries this h) = ?E" by (simp add: ce)
  have v: "fst (collect_values this h) = map Single (elems (data c))" by (simp add: cv)
  have ix: "map item_index (fst (collect_entries this h)) = map (\<lambda>j. Some (int j)) [0 ..< length (elems (data c))]"
    by (simp add: e)
  have iv: "map item_value (fst (collect_entries this h)) = map item_value (fst (collect_values this h))"
  proof -
    have "map item_value (fst (collect_entries this h)) = map ((!) (elems (data c))) [0 ..< length (elems (data c))]"
      by (simp add: e)
    also have "\<dots> = elems (data c)" by (simp only: map_nth)
    also have "\<dots> = map item_value (fst (collect_values this h))" by (simp add: v comp_def)
    finally show ?thesis .
  qed
  have l: "int (length (fst (collect_entries this h))) = size_chain c"
    "int (length (fst (collect_values this h))) = size_chain c"
    by (simp_all add: e v size_chain_def Array_length_def)
  have fr: "chains (snd (collect_entries this h)) = chains h" "chains (snd (collect_values this h)) = chains h"
    by (simp_all add: ce cv)
  from fr(1) assms have c': "chains (snd (collect_entries this h)) this = Some c" by simp
  have again: "fst (collect_entries this (snd (collect_entries this h))) = fst (collect_entries this h)"
    "fst (collect_values this (snd (collect_entries this h))) = fst (collect_values this h)"
    by (simp_all add: collect_entries_eq [OF c'] collect_values_eq [OF c'] e v)
  have il: "(case entries this h of (r1, h1) \<Rightarrow>
        case entries this h1 of (r2, h2) \<Rightarrow>
        case ArrayIterator_next r1 h2 of (x, h3) \<Rightarrow>
          r1 \<noteq> r2 \<and> iterators h3 ! r2 = iterators h2 ! r2
          \<and> fst (drain r2 h3) = fst (collect_entries this h)
          \<and> fst (drain r1 h3) = drop 1 (fst (collect_entries this h)))"
  proof -
    obtain r1 h1 where e1: "entries this h = (r1, h1)" by (cases "entries this h")
    obtain r2 h2 where e2: "entries this h1 = (r2, h2)" by (cases "entries this h1")
    obtain x h3 where n: "ArrayIterator_next r1 h2 = (x, h3)" by (cases "ArrayIterator_next r1 h2")
    from interleaved [OF assms e1 e2 n] show ?thesis unfolding e1 e2 n prod.case e .
  qed
  have lv: "(case entries this h of (r, h1) \<Rightarrow>
        fst (drain r (invoke this (add d) h1))
          = fst (collect_entries this h) @ [Entry (size_chain c) (Some d)])"
  proof -
    obtain r h1 where e1: "entries this h = (r, h1)" by (cases "entries this h")
    from live_iterator [OF assms e1, of d] show ?thesis unfolding e1 prod.case e .
  qed
  have "chains (invoke this (add d) h) this = Some (add d c)"
    using assms by (simp add: invoke_def)
  from collect_entries_eq [OF this]
  have nw: "fst (collect_entries this (invoke this (add d) h))
        = fst (collect_entries this h) @ [Entry (size_chain c) (Some d)]"
    by (simp add: e entries_after_add)
  from e v ix iv l fr again il lv nw show ?thesis by (intro conjI)
qed

theorem entries_match_values_witness:
  "chains heap0 1 = Some (add S1 (add S0 chain0))
   \<and> fst (collect_entries 1 heap0) = [Entry 0 (Some S0), Entry 1 (Some S1)]
   \<and> fst (collect_values 1 heap0) = [Single (Some S0), Single (Some S1)]
   \<and> fst (collect_entries 1 (snd (collect_entries 1 heap0))) = [Entry 0 (Some S0), Entry 1 (Some S1)]
   \<and> fst (collect_entries 1 (invoke 1 (add S2) heap0))
        = [Entry 0 (Some S0), Entry 1 (Some S1), Entry 2 (Some S2)]
   \<and> chains heap0 0 = Some (add S2 chain0)
   \<and> fst (collect_entries 0 heap0) = [Entry 0 (Some S2)]"
proof -
  define c where "c = add S1 (add S0 chain0)"
  define b where "b = add S2 chain0"
  have h: "chains heap0 1 = Some c" and hb: "chains heap0 0 = Some b"
    by (simp_all add: heap0_def c_def b_def)
  have el: "elems (data c) = [Some S0, Some S1]" and sz: "size_chain c = 2"
    and eb: "elems (data b) = [Some S2]"
    by (simp_all add: c_def b_def chain_defs)
  note t = entries_match_values [OF h, of S2]
  note tb = entries_match_values [OF hb, of S2]
  from t have e: "fst (collect_entries 1 heap0)
      = map (\<lambda>j. Entry (int j) (elems (data c) ! j)) [0 ..< length (elems (data c))]"
    by blast
  then have e': "fst (collect_entries 1 heap0) = [Entry 0 (Some S0), Entry 1 (Some S1)]"
    by (simp add: el upt_conv_Cons)
  from tb have "fst (collect_entries 0 heap0)
      = map (\<lambda>j. Entry (int j) (elems (data b) ! j)) [0 ..< length (elems (data b))]"
    by blast
  then have b': "fst (collect_entries 0 heap0) = [Entry 0 (Some S2)]"
    by (simp add: eb)
  from t have "fst (collect_values 1 heap0) = map Single (elems (data c))" by blast
  then have v': "fst (collect_values 1 heap0) = [Single (Some S0), Single (Some S1)]"
    by (simp add: el)
  from t have "fst (collect_entries 1 (snd (collect_entries 1 heap0))) = fst (collect_entries 1 heap0)"
    by blast
  with e' have a': "fst (collect_entries 1 (snd (collect_entries 1 heap0))) = [Entry 0 (Some S0), Entry 1 (Some S1)]"
    by simp
  from t have "fst (collect_entries 1 (invoke 1 (add S2) heap0))
        = fst (collect_entries 1 heap0) @ [Entry (size_chain c) (Some S2)]"
    by blast
  with e' sz have n': "fst (collect_entries 1 (invoke 1 (add S2) heap0))
        = [Entry 0 (Some S0), Entry 1 (Some S1), Entry 2 (Some S2)]"
    by simp
  from h hb e' v' a' n' b' show ?thesis unfolding c_def b_def by (simp only: simp_thms)
qed

section \<open>\<open>clear\<close>\<close>

text \<open>
  C10. \<open>clear()\<close> empties the snapshot sequence and nothing else: afterwards the size is
  0, and the cursor, the key, the object and both flags are what they were before the call
  (the cursor is not reset to 0). The first half is about the base class, whose flags are
  stored; the second half about the stand-alone class, whose flags are constants.
\<close>

theorem clear_frame:
  fixes c :: "('o, 'f, 'v) DescriptorChainBase" and m :: "('o, 'f, 'v) DescriptorChain"
  shows "size_chain (clear c) = 0 \<and> currentIndex (clear c) = currentIndex c
         \<and> active (clear c) = active c \<and> enabled (clear c) = enabled c
         \<and> key (clear c) = key c \<and> object (clear c) = object c
         \<and> size_chain (clear m) = 0 \<and> currentIndex (clear m) = currentIndex m
         \<and> active_fixed (clear m) = active_fixed m \<and> enabled_fixed (clear m) = enabled_fixed m
         \<and> key (clear m) = key m \<and> object (clear m) = object m"
  by (simp add: clear_def size_chain_def Array_length_def Array_setLength_def
                active_fixed_def enabled_fixed_def)

end
